theory Spec2Isabelle
  imports Main "HOL-Library.Sublist"
begin

section \<open>Game organizer: a shallow embedding of \<^verbatim>\<open>organize.py\<close>\<close>

text \<open>
  The script walks an input directory and copies every file it finds into
  \<^verbatim>\<open><output>/<region>/<first character>\<close> or \<^verbatim>\<open><output>/Other/<region>\<close>.
  File names are modelled as \<^typ>\<open>string\<close>. The three regular expressions of the
  script only mention ASCII characters; every other character is matched by none of
  their classes, so a non-ASCII name behaves as a name of "other" characters.
\<close>

subsection \<open>Python's string primitives\<close>

text \<open>\<^verbatim>\<open>sub in s\<close> on strings: \<^verbatim>\<open>sub\<close> occurs in \<^verbatim>\<open>s\<close> as a contiguous run.\<close>

fun str_in :: "string \<Rightarrow> string \<Rightarrow> bool" where
  "str_in sub [] = (sub = [])"
| "str_in sub (c # cs) = (prefix sub (c # cs) \<or> str_in sub cs)"

text \<open>\<^verbatim>\<open>s.split(sep)\<close> for a one-character separator: never the empty list.\<close>

fun split_on :: "char \<Rightarrow> string \<Rightarrow> string list" where
  "split_on sep [] = [[]]"
| "split_on sep (c # cs) =
     (if c = sep then [] # split_on sep cs
      else (case split_on sep cs of
              [] \<Rightarrow> [[c]]
            | p # ps \<Rightarrow> (c # p) # ps))"

text \<open>
  \<^verbatim>\<open>str.isspace\<close> on a single ASCII character: tab, line feed, vertical tab, form
  feed, carriage return, the four separators \<^verbatim>\<open>0x1c..0x1f\<close> and the space. The script
  strips a piece of a matched region only, whose characters are all ASCII.
\<close>

definition isspace :: "char \<Rightarrow> bool" where
  "isspace c \<longleftrightarrow>
     (let n = of_char c :: nat in (9 \<le> n \<and> n \<le> 13) \<or> (28 \<le> n \<and> n \<le> 32))"

text \<open>\<^verbatim>\<open>s.strip()\<close>: whitespace removed at both ends.\<close>

definition strip :: "string \<Rightarrow> string" where
  "strip s = rev (dropWhile isspace (rev (dropWhile isspace s)))"

subsection \<open>\<^verbatim>\<open>os.path.join\<close> (the POSIX one)\<close>

text \<open>
  \<^verbatim>\<open>
  def join(a, *p):
      path = a
      for b in p:
          if b.startswith('/'):               path = b
          elif not path or path.endswith('/'): path += b
          else:                                path += '/' + b
      return path
  \<close>
\<close>

definition join_step :: "string \<Rightarrow> string \<Rightarrow> string" where
  "join_step path b =
     (if prefix ''/'' b then b
      else if path = [] \<or> suffix ''/'' path then path @ b
      else path @ ''/'' @ b)"

definition os_path_join :: "string \<Rightarrow> string list \<Rightarrow> string" where
  "os_path_join a p = foldl join_step a p"

subsection \<open>The three compiled patterns\<close>

definition is_upper :: "char \<Rightarrow> bool" where
  "is_upper c \<longleftrightarrow> (let n = of_char c :: nat in 65 \<le> n \<and> n \<le> 90)"

definition is_lower :: "char \<Rightarrow> bool" where
  "is_lower c \<longleftrightarrow> (let n = of_char c :: nat in 97 \<le> n \<and> n \<le> 122)"

definition is_digit :: "char \<Rightarrow> bool" where
  "is_digit c \<longleftrightarrow> (let n = of_char c :: nat in 48 \<le> n \<and> n \<le> 57)"

text \<open>The class \<^verbatim>\<open>[A-Za-z0-9]\<close>.\<close>

definition is_alnum :: "char \<Rightarrow> bool" where
  "is_alnum c \<longleftrightarrow> is_upper c \<or> is_lower c \<or> is_digit c"

text \<open>The class \<^verbatim>\<open>[A-Za-z0-9 ,]\<close>.\<close>

definition is_region_char :: "char \<Rightarrow> bool" where
  "is_region_char c \<longleftrightarrow> is_alnum c \<or> c = CHR '' '' \<or> c = CHR '',''"

text \<open>
  \<^verbatim>\<open>REGION = re.compile(r'\(([A-Za-z0-9 ,]+)\)')\<close>.
  \<open>REGION_match_here s\<close> is the match of the pattern anchored at the start of \<open>s\<close>,
  giving group 1: an opening parenthesis, the longest run of class characters, which must
  not be empty, and a closing parenthesis. (The closing parenthesis is not in the class,
  so giving back characters of the run never yields another match.)
  \<open>REGION_search\<close> is \<^verbatim>\<open>REGION.search\<close>: the match at the leftmost position that has one.
\<close>

definition REGION_match_here :: "string \<Rightarrow> string option" where
  "REGION_match_here s =
     (case s of
        [] \<Rightarrow> None
      | c # cs \<Rightarrow>
          if c = CHR ''(''
          then (let g = takeWhile is_region_char cs;
                    r = dropWhile is_region_char cs
                in if g \<noteq> [] \<and> prefix '')'' r then Some g else None)
          else None)"

fun REGION_search :: "string \<Rightarrow> string option" where
  "REGION_search [] = REGION_match_here []"
| "REGION_search (c # cs) =
     (case REGION_match_here (c # cs) of
        Some g \<Rightarrow> Some g
      | None \<Rightarrow> REGION_search cs)"

text \<open>
  \<^verbatim>\<open>ALPHA_NUMERIC = re.compile(r'([A-Za-z0-9])')\<close>; \<^verbatim>\<open>ALPHA_NUMERIC.search(game)\<close>
  with \<^verbatim>\<open>match.group()\<close> is the first character of the class, as a string.
\<close>

definition ALPHA_NUMERIC_search :: "string \<Rightarrow> string option" where
  "ALPHA_NUMERIC_search game = map_option (\<lambda>c. [c]) (find is_alnum game)"

text \<open>
  \<^verbatim>\<open>NUMERIC = re.compile(r'\d+')\<close>; \<^verbatim>\<open>NUMERIC.match(s)\<close> succeeds when \<open>s\<close> starts with
  a digit. The script calls it on the character \<^verbatim>\<open>ALPHA_NUMERIC\<close> matched, an ASCII one, of
  which \<^verbatim>\<open>\d\<close> matches \<^verbatim>\<open>0\<close> to \<^verbatim>\<open>9\<close>.
\<close>

definition NUMERIC_match :: "string \<Rightarrow> bool" where
  "NUMERIC_match s = (case s of [] \<Rightarrow> False | c # _ \<Rightarrow> is_digit c)"

subsection \<open>Configuration, the operating system and what a run does\<close>

text \<open>The parsed command line (\<^verbatim>\<open>parse_args\<close>), the global \<^verbatim>\<open>args\<close> of the script.\<close>

record args =
  debug :: bool
  input_dir :: string
  output_dir :: string

text \<open>
  What the script does to the outside, in order: a line sent to the logger, a call of
  \<^verbatim>\<open>os.makedirs\<close>, a call of \<^verbatim>\<open>shutil.copyfile\<close> with its source and destination.
  The logger's level is \<^verbatim>\<open>DEBUG\<close> or \<^verbatim>\<open>INFO\<close>, so every line the script logs is recorded.
\<close>

datatype level = INFO | WARNING | ERROR

datatype event =
    Log level string
  | MakeDirs string
  | CopyFile string string

text \<open>
  A function of the script either returns or leaves through an exception:
  \<^verbatim>\<open>sys.exit(1)\<close> in \<^verbatim>\<open>abort\<close>, or whatever \<^verbatim>\<open>shutil.copyfile\<close> raised, which nothing
  catches.
\<close>

datatype exc = SystemExit nat | Uncaught string

datatype 'a result = Return 'a | Raise exc

text \<open>
  The file system is a parameter: a state \<open>'w\<close> and the three primitives the script
  calls on it. \<open>makedirs\<close> and \<open>copyfile\<close> give the text of the exception they raise, if
  any, and the file system they leave.
\<close>

record 'w os =
  path_exists :: "'w \<Rightarrow> string \<Rightarrow> bool"
  makedirs :: "'w \<Rightarrow> string \<Rightarrow> string option \<times> 'w"
  copyfile :: "'w \<Rightarrow> string \<Rightarrow> string \<Rightarrow> string option \<times> 'w"

type_synonym ('a, 'w) run = "'a result \<times> 'w \<times> event list"

definition events :: "('a, 'w) run \<Rightarrow> event list" where
  "events r = snd (snd r)"

subsection \<open>\<^verbatim>\<open>abort\<close>, \<^verbatim>\<open>create_dir\<close>, \<^verbatim>\<open>get_destination_dir\<close>\<close>

definition abort :: "string \<Rightarrow> 'w \<Rightarrow> ('a, 'w) run" where
  "abort message w =
     (Raise (SystemExit 1), w, [Log ERROR message, Log ERROR ''Aborted''])"

definition create_dir :: "'w os \<Rightarrow> string \<Rightarrow> 'w \<Rightarrow> (unit, 'w) run" where
  "create_dir os dir w =
     (case makedirs os w dir of
        (None, w') \<Rightarrow> (Return (), w', [MakeDirs dir])
      | (Some e, w') \<Rightarrow>
          (case abort (''Failed to create '' @ dir) w' of
             (r, w'', evs) \<Rightarrow> (r, w'', [MakeDirs dir, Log ERROR e] @ evs)))"

definition get_destination_dir :: "args \<Rightarrow> string \<Rightarrow> string \<Rightarrow> string" where
  "get_destination_dir a region first_char =
     (if region \<in> set [''Europe'', ''Japan'', ''USA'']
      then os_path_join (output_dir a) [region, first_char]
      else os_path_join (output_dir a) [''Other'', region])"

subsection \<open>\<^verbatim>\<open>move_game\<close>\<close>

text \<open>
  Lines 78 to 92: the region of a file name, with the warning logged when the name has
  none. \<^verbatim>\<open>region.split(',')[0]\<close> is the head of a list that is never empty.
\<close>

definition resolve_region :: "string \<Rightarrow> string \<times> event list" where
  "resolve_region game =
     (case REGION_search game of
        Some region \<Rightarrow>
          (if CHR '','' \<in> set region
           then (if str_in ''USA'' region then ''USA''
                 else strip (hd (split_on CHR '','' region)))
           else region,
           [])
      | None \<Rightarrow>
          (''USA'',
           [Log WARNING (''Unable to find region in '' @ CHR 0x27 # game @ CHR 0x27 # ''; defaulting to USA'')]))"

text \<open>
  Lines 94 to 102: the first alphanumeric character, replaced by \<^verbatim>\<open>#\<close> when it is a
  digit; \<open>None\<close> when the script logs the warning and returns.
\<close>

definition first_char_of :: "string \<Rightarrow> string option" where
  "first_char_of game =
     (case ALPHA_NUMERIC_search game of
        None \<Rightarrow> None
      | Some first_char \<Rightarrow> Some (if NUMERIC_match first_char then ''#'' else first_char))"

text \<open>
  Lines 105 to 107, and lines 120 to 122 of \<^verbatim>\<open>organize\<close>, which are the same code on
  another path: a directory that does not exist is created, after a line in the log.
\<close>

definition ensure_dir :: "'w os \<Rightarrow> string \<Rightarrow> 'w \<Rightarrow> (unit, 'w) run" where
  "ensure_dir os dir w =
     (if \<not> path_exists os w dir
      then (case create_dir os dir w of
              (r, w', evs) \<Rightarrow>
                (r, w', Log INFO (dir @ '' not found; attempting to create'') # evs))
      else (Return (), w, []))"

text \<open>Lines 104 to 114: the destination directory, created when absent, and the copy.\<close>

definition place_game :: "'w os \<Rightarrow> args \<Rightarrow> string \<Rightarrow> string \<Rightarrow> string \<Rightarrow> 'w \<Rightarrow> (unit, 'w) run" where
  "place_game os a region first_char game w =
     (let destination_dir = get_destination_dir a region first_char
      in case ensure_dir os destination_dir w of
           (Raise e, w1, ev1) \<Rightarrow> (Raise e, w1, ev1)
         | (Return _, w1, ev1) \<Rightarrow>
             (let source = os_path_join (input_dir a) [game];
                  destination = os_path_join destination_dir [game];
                  ev2 = [Log INFO (''Copy from '' @ source @ '' to '' @ destination),
                         CopyFile source destination]
              in case copyfile os w1 source destination of
                   (None, w2) \<Rightarrow> (Return (), w2, ev1 @ ev2)
                 | (Some e, w2) \<Rightarrow> (Raise (Uncaught e), w2, ev1 @ ev2)))"

definition move_game :: "'w os \<Rightarrow> args \<Rightarrow> string \<Rightarrow> 'w \<Rightarrow> (unit, 'w) run" where
  "move_game os a game w =
     (let (region, ev0) = resolve_region game
      in case first_char_of game of
           None \<Rightarrow>
             (Return (), w,
              ev0 @ [Log WARNING (''Unable to determine the first alpha numeric character in ''
                                  @ CHR 0x27 # game @ CHR 0x27 # ''; skipping'')])
         | Some first_char \<Rightarrow>
             (case place_game os a region first_char game w of
                (r, w', evs) \<Rightarrow> (r, w', ev0 @ evs)))"

subsection \<open>\<^verbatim>\<open>organize\<close>\<close>

text \<open>
  The inner loop, over the file names of one directory, with the running \<^verbatim>\<open>game_count\<close>.
  An exception of \<^verbatim>\<open>move_game\<close> ends the loop.
\<close>

fun organize_games :: "'w os \<Rightarrow> args \<Rightarrow> string list \<Rightarrow> 'w \<Rightarrow> nat \<Rightarrow> (nat, 'w) run" where
  "organize_games os a [] w game_count = (Return game_count, w, [])"
| "organize_games os a (game # games) w game_count =
     (if str_in ''BIOS'' game
      then (case organize_games os a games w game_count of
              (r, w', evs) \<Rightarrow> (r, w', Log INFO (''Skipping BIOS file: '' @ game) # evs))
      else (case move_game os a game w of
              (Raise e, w1, ev1) \<Rightarrow> (Raise e, w1, ev1)
            | (Return _, w1, ev1) \<Rightarrow>
                (case organize_games os a games w1 (game_count + 1) of
                   (r, w2, ev2) \<Rightarrow> (r, w2, ev1 @ ev2))))"

text \<open>
  The outer loop, over what \<^verbatim>\<open>os.walk(args.input_dir)\<close> yields: triples of a directory
  path, its subdirectory names and its file names, of which the loop reads the file names
  only. What the walk yields is a parameter of the model.
\<close>

fun organize_walk ::
  "'w os \<Rightarrow> args \<Rightarrow> (string \<times> string list \<times> string list) list \<Rightarrow> 'w \<Rightarrow> nat \<Rightarrow> (nat, 'w) run" where
  "organize_walk os a [] w game_count = (Return game_count, w, [])"
| "organize_walk os a ((_, _, games) # rest) w game_count =
     (case organize_games os a games w game_count of
        (Raise e, w1, ev1) \<Rightarrow> (Raise e, w1, ev1)
      | (Return game_count', w1, ev1) \<Rightarrow>
          (case organize_walk os a rest w1 game_count' of
             (r, w2, ev2) \<Rightarrow> (r, w2, ev1 @ ev2)))"

definition organize ::
  "'w os \<Rightarrow> args \<Rightarrow> (string \<times> string list \<times> string list) list \<Rightarrow> 'w \<Rightarrow> (nat, 'w) run" where
  "organize os a walk w =
     (if \<not> path_exists os w (input_dir a)
      then abort (''Input directory: '' @ CHR 0x27 # input_dir a @ CHR 0x27 # '' doesn't exist!'') w
      else (case ensure_dir os (output_dir a) w of
              (Raise e, w1, ev1) \<Rightarrow> (Raise e, w1, ev1)
            | (Return _, w1, ev1) \<Rightarrow>
                (case organize_walk os a walk w1 0 of
                   (r, w2, ev2) \<Rightarrow> (r, w2, ev1 @ ev2))))"

subsection \<open>The script's main block\<close>

text \<open>\<^verbatim>\<open>str\<close> of a count and of a truth value, as an f-string writes them.\<close>

function str_of_nat :: "nat \<Rightarrow> string" where
  "str_of_nat n =
     (if n < 10 then [char_of (48 + n)]
      else str_of_nat (n div 10) @ [char_of (48 + n mod 10)])"
  by pat_completeness auto
termination
  by (relation "measure id") auto

declare str_of_nat.simps [simp del]

definition str_of_bool :: "bool \<Rightarrow> string" where
  "str_of_bool b = (if b then ''True'' else ''False'')"

text \<open>\<^verbatim>\<open>log_args\<close>: the attributes of \<^verbatim>\<open>args\<close>, in the order the parser declares them.\<close>

definition log_args :: "args \<Rightarrow> event list" where
  "log_args a =
     [Log INFO ''*** Script Arguments Begin ***'',
      Log INFO (''debug: '' @ str_of_bool (debug a)),
      Log INFO (''input_dir: '' @ input_dir a),
      Log INFO (''output_dir: '' @ output_dir a),
      Log INFO ''*** Script Arguments End ***'']"

text \<open>
  The block under \<^verbatim>\<open>__main__\<close>, after the arguments are parsed and the logger is set up:
  the count \<^verbatim>\<open>organize\<close> returns is what the log reports as processed.
\<close>

definition main :: "'w os \<Rightarrow> args \<Rightarrow> (string \<times> string list \<times> string list) list \<Rightarrow> 'w \<Rightarrow> (unit, 'w) run" where
  "main os a walk w =
     (case organize os a walk w of
        (Raise e, w', evs) \<Rightarrow> (Raise e, w', Log INFO ''Start'' # log_args a @ evs)
      | (Return game_count, w', evs) \<Rightarrow>
          (Return (), w',
           Log INFO ''Start'' # log_args a @ evs
           @ [Log INFO (''Processed '' @ str_of_nat game_count @ '' games''),
              Log INFO ''Finish'']))"

text \<open>
  The names \<^verbatim>\<open>os.walk\<close> yields, of files and of directories, are names of directory
  entries: not empty, and without a slash.
\<close>

definition is_name :: "string \<Rightarrow> bool" where
  "is_name s \<longleftrightarrow> s \<noteq> [] \<and> CHR ''/'' \<notin> set s"

subsection \<open>A small file system to run the model on\<close>

text \<open>
  The state is the list of the paths that exist. \<open>makedirs\<close> fails on a path that exists,
  \<open>copyfile\<close> on a source that does not.
\<close>

definition list_os :: "string list os" where
  "list_os =
     \<lparr>path_exists = (\<lambda>w p. p \<in> set w),
      makedirs = (\<lambda>w p. if p \<in> set w then (Some ''File exists'', w) else (None, p # w)),
      copyfile = (\<lambda>w s d. if s \<in> set w then (None, d # w) else (Some ''No such file'', w))\<rparr>"

definition example_args :: args where
  "example_args = \<lparr>debug = False, input_dir = ''in'', output_dir = ''out''\<rparr>"

section \<open>Properties\<close>

subsection \<open>The string primitives and the patterns\<close>

lemmas char_class_defs =
  is_region_char_def is_alnum_def is_upper_def is_lower_def is_digit_def isspace_def

lemma split_on_not_Nil: "split_on sep s \<noteq> []"
  by (induction s) (auto split: list.splits)

lemma hd_split_on: "hd (split_on sep s) = takeWhile (\<lambda>c. c \<noteq> sep) s"
  by (induction s) (auto simp: split_on_not_Nil split: list.splits)

lemma str_in_iff_sublist: "str_in sub s \<longleftrightarrow> sublist sub s"
  by (induction s) (auto simp: sublist_Cons_right)

lemma strip_sublist: "sublist (strip s) s"
proof -
  have "sublist (dropWhile isspace (rev (dropWhile isspace s))) (rev (dropWhile isspace s))"
    by simp
  then have "sublist (strip s) (dropWhile isspace s)"
    unfolding strip_def by (simp add: sublist_rev_left)
  moreover have "sublist (dropWhile isspace s) s" by simp
  ultimately show ?thesis by (rule sublist_order.order_trans)
qed

lemma split_on_sublist: "t \<in> set (split_on sep s) \<Longrightarrow> sublist t s"
proof (induction s arbitrary: t)
  case Nil
  then show ?case by simp
next
  case (Cons c cs)
  show ?case
  proof (cases "c = sep")
    case True
    with Cons.prems have "t = [] \<or> t \<in> set (split_on sep cs)" by simp
    then show ?thesis using Cons.IH by (auto simp: sublist_Cons_right)
  next
    case False
    obtain p ps where ps: "split_on sep cs = p # ps"
      using split_on_not_Nil by (cases "split_on sep cs") auto
    with False Cons.prems have "t = c # p \<or> t \<in> set ps" by simp
    then show ?thesis
    proof
      assume t: "t = c # p"
      have "p = takeWhile (\<lambda>c. c \<noteq> sep) cs" using hd_split_on [of sep cs] ps by simp
      then have "prefix p cs" by (metis takeWhile_dropWhile_id prefixI)
      then show ?thesis using t by (simp add: sublist_Cons_right)
    next
      assume "t \<in> set ps"
      then have "sublist t cs" using Cons.IH ps by simp
      then show ?thesis by (simp add: sublist_Cons_right)
    qed
  qed
qed

lemma REGION_match_here_iff:
  "REGION_match_here s = Some g \<longleftrightarrow>
     (\<exists>post. s = ''('' @ g @ '')'' @ post) \<and> g \<noteq> [] \<and> (\<forall>c\<in>set g. is_region_char c)"
proof
  assume m: "REGION_match_here s = Some g"
  then obtain cs where s: "s = CHR ''('' # cs"
    by (cases s) (auto simp: REGION_match_here_def split: if_splits)
  from m s have g: "g = takeWhile is_region_char cs" and ne: "g \<noteq> []"
    and p: "prefix '')'' (dropWhile is_region_char cs)"
    by (auto simp: REGION_match_here_def Let_def split: if_splits)
  from p obtain post where "dropWhile is_region_char cs = '')'' @ post"
    by (auto simp: prefix_def)
  then have "cs = g @ '')'' @ post"
    using g takeWhile_dropWhile_id [of is_region_char cs] by simp
  moreover have "\<forall>c\<in>set g. is_region_char c"
    using g by (auto dest: set_takeWhileD)
  ultimately show "(\<exists>post. s = ''('' @ g @ '')'' @ post) \<and> g \<noteq> [] \<and> (\<forall>c\<in>set g. is_region_char c)"
    using s ne by simp
next
  assume "(\<exists>post. s = ''('' @ g @ '')'' @ post) \<and> g \<noteq> [] \<and> (\<forall>c\<in>set g. is_region_char c)"
  then obtain post where s: "s = ''('' @ g @ '')'' @ post" and ne: "g \<noteq> []"
    and all: "\<forall>c\<in>set g. is_region_char c" by blast
  have np: "\<not> is_region_char CHR '')''" by (simp add: char_class_defs)
  have "takeWhile is_region_char (g @ CHR '')'' # post) = g"
    using all np by (simp add: takeWhile_append2)
  moreover have "dropWhile is_region_char (g @ CHR '')'' # post) = CHR '')'' # post"
    using all np by (simp add: dropWhile_append2)
  ultimately show "REGION_match_here s = Some g"
    using s ne by (simp add: REGION_match_here_def)
qed

lemma REGION_search_None_iff:
  "REGION_search s = None \<longleftrightarrow> (\<forall>pre post. s = pre @ post \<longrightarrow> REGION_match_here post = None)"
proof (induction s)
  case Nil
  show ?case by simp
next
  case (Cons c cs)
  show ?case
  proof
    assume n: "REGION_search (c # cs) = None"
    then have here: "REGION_match_here (c # cs) = None" and "REGION_search cs = None"
      by (auto split: option.splits)
    then have rest: "\<forall>pre post. cs = pre @ post \<longrightarrow> REGION_match_here post = None"
      using Cons.IH by simp
    show "\<forall>pre post. c # cs = pre @ post \<longrightarrow> REGION_match_here post = None"
    proof (intro allI impI)
      fix pre post assume e: "c # cs = pre @ post"
      show "REGION_match_here post = None"
      proof (cases pre)
        case Nil then show ?thesis using e here by simp
      next
        case (Cons x xs) then show ?thesis using e rest by simp
      qed
    qed
  next
    assume a: "\<forall>pre post. c # cs = pre @ post \<longrightarrow> REGION_match_here post = None"
    then have "REGION_match_here (c # cs) = None" by (metis append_Nil)
    moreover have "\<forall>pre post. cs = pre @ post \<longrightarrow> REGION_match_here post = None"
      using a by (metis append_Cons)
    ultimately show "REGION_search (c # cs) = None" using Cons.IH by simp
  qed
qed

lemma REGION_search_Some:
  "REGION_search s = Some g \<Longrightarrow>
     \<exists>pre post. s = pre @ post \<and> REGION_match_here post = Some g \<and>
       (\<forall>pre' post'. s = pre' @ post' \<and> length pre' < length pre \<longrightarrow> REGION_match_here post' = None)"
proof (induction s)
  case Nil
  then show ?case by (simp add: REGION_match_here_def)
next
  case (Cons c cs)
  show ?case
  proof (cases "REGION_match_here (c # cs)")
    case (Some g')
    with Cons.prems have "g' = g" by simp
    with Some have "c # cs = [] @ (c # cs) \<and> REGION_match_here (c # cs) = Some g \<and>
       (\<forall>pre' post'. c # cs = pre' @ post' \<and> length pre' < length ([]::string) \<longrightarrow> REGION_match_here post' = None)"
      by simp
    then show ?thesis by blast
  next
    case None
    with Cons.prems have "REGION_search cs = Some g" by simp
    then obtain pre post where cs: "cs = pre @ post" and m: "REGION_match_here post = Some g"
      and first: "\<forall>pre' post'. cs = pre' @ post' \<and> length pre' < length pre \<longrightarrow> REGION_match_here post' = None"
      using Cons.IH by blast
    have "\<forall>pre' post'. c # cs = pre' @ post' \<and> length pre' < length (c # pre) \<longrightarrow> REGION_match_here post' = None"
    proof (intro allI impI)
      fix pre' post' assume e: "c # cs = pre' @ post' \<and> length pre' < length (c # pre)"
      show "REGION_match_here post' = None"
      proof (cases pre')
        case Nil then show ?thesis using e None by simp
      next
        case (Cons x xs)
        with e have "cs = xs @ post'" and "length xs < length pre" by simp_all
        then show ?thesis using first by blast
      qed
    qed
    then have "c # cs = (c # pre) @ post \<and> REGION_match_here post = Some g \<and>
       (\<forall>pre' post'. c # cs = pre' @ post' \<and> length pre' < length (c # pre) \<longrightarrow> REGION_match_here post' = None)"
      using cs m by simp
    then show ?thesis by blast
  qed
qed

lemma REGION_search_chars:
  "REGION_search s = Some g \<Longrightarrow> g \<noteq> [] \<and> (\<forall>c\<in>set g. is_region_char c)"
  using REGION_search_Some [of s g] REGION_match_here_iff by blast

lemma resolve_region_chars: "\<forall>c\<in>set (fst (resolve_region game)). is_region_char c"
proof (cases "REGION_search game")
  case None
  then show ?thesis by (simp add: resolve_region_def char_class_defs)
next
  case (Some g)
  then have g: "\<forall>c\<in>set g. is_region_char c" using REGION_search_chars by blast
  have "sublist (strip (hd (split_on CHR '','' g))) g"
  proof -
    have "sublist (hd (split_on CHR '','' g)) g"
      by (simp add: hd_split_on)
    then show ?thesis
      using strip_sublist sublist_order.order_trans by blast
  qed
  then have "set (strip (hd (split_on CHR '','' g))) \<subseteq> set g"
    by (rule set_mono_sublist)
  with g Some show ?thesis
    by (auto simp: resolve_region_def char_class_defs)
qed

lemma first_char_of_Some:
  "first_char_of game = Some b \<Longrightarrow> b = ''#'' \<or> (\<exists>c. b = [c] \<and> is_alnum c \<and> \<not> is_digit c)"
  by (auto simp: first_char_of_def ALPHA_NUMERIC_search_def NUMERIC_match_def find_Some_iff
      split: option.splits if_splits)

lemma join_step_relative:
  "\<not> prefix ''/'' b \<Longrightarrow>
     join_step path b = (if path = [] \<or> suffix ''/'' path then path else path @ ''/'') @ b"
  by (simp add: join_step_def)

lemma REGION_search_None_decl:
  "REGION_search s = None \<longleftrightarrow>
     \<not> (\<exists>pre g post. s = pre @ ''('' @ g @ '')'' @ post \<and> g \<noteq> [] \<and> (\<forall>c\<in>set g. is_region_char c))"
proof
  assume n: "REGION_search s = None"
  show "\<not> (\<exists>pre g post. s = pre @ ''('' @ g @ '')'' @ post \<and> g \<noteq> [] \<and> (\<forall>c\<in>set g. is_region_char c))"
  proof
    assume "\<exists>pre g post. s = pre @ ''('' @ g @ '')'' @ post \<and> g \<noteq> [] \<and> (\<forall>c\<in>set g. is_region_char c)"
    then obtain pre g post where s: "s = pre @ (''('' @ g @ '')'' @ post)" and ne: "g \<noteq> []"
      and all: "\<forall>c\<in>set g. is_region_char c" by (elim exE conjE) simp
    have "(\<exists>post'. ''('' @ g @ '')'' @ post = ''('' @ g @ '')'' @ post') \<and> g \<noteq> []
        \<and> (\<forall>c\<in>set g. is_region_char c)"
      using ne all by simp
    then have "REGION_match_here (''('' @ g @ '')'' @ post) = Some g"
      by (rule REGION_match_here_iff [THEN iffD2])
    moreover have "REGION_match_here (''('' @ g @ '')'' @ post) = None"
      using REGION_search_None_iff [THEN iffD1, OF n] s by (elim allE impE)
    ultimately show False by simp
  qed
next
  assume a: "\<not> (\<exists>pre g post. s = pre @ ''('' @ g @ '')'' @ post \<and> g \<noteq> [] \<and> (\<forall>c\<in>set g. is_region_char c))"
  have "\<forall>pre post. s = pre @ post \<longrightarrow> REGION_match_here post = None"
  proof (intro allI impI)
    fix pre post assume s: "s = pre @ post"
    show "REGION_match_here post = None"
    proof (cases "REGION_match_here post")
      case None then show ?thesis .
    next
      case (Some g)
      have "(\<exists>post'. post = ''('' @ g @ '')'' @ post') \<and> g \<noteq> [] \<and> (\<forall>c\<in>set g. is_region_char c)"
        using Some by (rule REGION_match_here_iff [THEN iffD1])
      then obtain post' where p: "post = ''('' @ g @ '')'' @ post'" and ne: "g \<noteq> []"
        and all: "\<forall>c\<in>set g. is_region_char c" by (elim exE conjE)
      have eq: "s = pre @ ''('' @ g @ '')'' @ post'" using s p by simp
      have "\<exists>pre g post. s = pre @ ''('' @ g @ '')'' @ post \<and> g \<noteq> [] \<and> (\<forall>c\<in>set g. is_region_char c)"
        using eq ne all by (intro exI conjI)
      with a show ?thesis by (rule notE)
    qed
  qed
  then show "REGION_search s = None" by (rule REGION_search_None_iff [THEN iffD2])
qed

subsection \<open>What a run does to the outside\<close>

lemma resolve_region_events:
  "snd (resolve_region game) =
     (case REGION_search game of
        Some _ \<Rightarrow> []
      | None \<Rightarrow> [Log WARNING (''Unable to find region in '' @ CHR 0x27 # game @ CHR 0x27 # ''; defaulting to USA'')])"
  by (simp add: resolve_region_def split: option.splits)

lemma events_tuple [simp]: "events (r, w, evs) = evs"
  by (simp add: events_def)

lemma create_dir_events:
  "\<exists>r w' evs. create_dir os dir w = (r, w', MakeDirs dir # evs) \<and> (\<forall>s d. CopyFile s d \<notin> set evs)"
  by (cases "makedirs os w dir") (auto simp: create_dir_def abort_def split: option.splits)

lemma ensure_dir_no_copy: "CopyFile s d \<notin> set (events (ensure_dir os dir w))"
  using create_dir_events [of os dir w] by (auto simp: ensure_dir_def)

lemma ensure_dir_Return:
  "ensure_dir os dir w = (Return u, w1, ev1) \<Longrightarrow> path_exists os w dir \<or> MakeDirs dir \<in> set ev1"
  using create_dir_events [of os dir w] by (auto simp: ensure_dir_def split: if_splits)

lemma ensure_dir_Raise:
  "ensure_dir os dir w = (Raise e, w1, ev1) \<Longrightarrow> MakeDirs dir \<in> set ev1"
  using create_dir_events [of os dir w] by (auto simp: ensure_dir_def split: if_splits)

lemma place_game_events:
  "\<exists>ev1 ev2. events (place_game os a region b game w) = ev1 @ ev2
     \<and> ev1 = events (ensure_dir os (get_destination_dir a region b) w)
     \<and> (ev2 = [] \<and> MakeDirs (get_destination_dir a region b) \<in> set ev1
        \<or> ev2 = [Log INFO (''Copy from '' @ os_path_join (input_dir a) [game] @ '' to ''
                           @ os_path_join (get_destination_dir a region b) [game]),
                 CopyFile (os_path_join (input_dir a) [game])
                          (os_path_join (get_destination_dir a region b) [game])])"
proof -
  obtain r w1 ev1 where e: "ensure_dir os (get_destination_dir a region b) w = (r, w1, ev1)"
    by (cases "ensure_dir os (get_destination_dir a region b) w") auto
  show ?thesis
  proof (cases r)
    case (Raise x)
    then show ?thesis using e ensure_dir_Raise [of os _ w x w1 ev1]
      by (simp add: place_game_def)
  next
    case (Return u)
    obtain res w2 where c: "copyfile os w1 (os_path_join (input_dir a) [game])
        (os_path_join (get_destination_dir a region b) [game]) = (res, w2)"
      by (cases "copyfile os w1 (os_path_join (input_dir a) [game])
        (os_path_join (get_destination_dir a region b) [game])") auto
    show ?thesis using e Return c by (cases res) (simp_all add: place_game_def Let_def)
  qed
qed

lemma place_game_CopyFile:
  "CopyFile s d \<in> set (events (place_game os a region b game w)) \<Longrightarrow>
     s = os_path_join (input_dir a) [game] \<and>
     d = os_path_join (get_destination_dir a region b) [game]"
  using place_game_events [of os a region b game w]
    ensure_dir_no_copy [of s d os "get_destination_dir a region b" w]
  by auto

lemma place_game_routes:
  "MakeDirs (get_destination_dir a region b) \<in> set (events (place_game os a region b game w)) \<or>
   CopyFile (os_path_join (input_dir a) [game])
            (os_path_join (get_destination_dir a region b) [game])
     \<in> set (events (place_game os a region b game w))"
  using place_game_events [of os a region b game w] by auto

lemma move_game_CopyFile:
  assumes "CopyFile s d \<in> set (events (move_game os a game w))"
  shows "\<exists>b. first_char_of game = Some b \<and> s = os_path_join (input_dir a) [game] \<and>
           d = os_path_join (get_destination_dir a (fst (resolve_region game)) b) [game]"
proof (cases "first_char_of game")
  case None
  then show ?thesis
    using assms resolve_region_events [of game]
    by (cases "resolve_region game") (auto simp: move_game_def split: option.splits)
next
  case (Some b)
  obtain r w' evs where p: "place_game os a (fst (resolve_region game)) b game w = (r, w', evs)"
    by (cases "place_game os a (fst (resolve_region game)) b game w") auto
  have "events (move_game os a game w) = snd (resolve_region game) @ evs"
    using Some p by (cases "resolve_region game") (simp add: move_game_def)
  then have "CopyFile s d \<in> set evs"
    using assms by (auto simp: resolve_region_events split: option.splits)
  then have "CopyFile s d \<in> set (events (place_game os a (fst (resolve_region game)) b game w))"
    using p by simp
  then have "s = os_path_join (input_dir a) [game] \<and>
     d = os_path_join (get_destination_dir a (fst (resolve_region game)) b) [game]"
    by (rule place_game_CopyFile)
  then show ?thesis using Some by simp
qed

lemma organize_games_CopyFile:
  "CopyFile s d \<in> set (events (organize_games os a games w n)) \<Longrightarrow>
     \<exists>g\<in>set games. \<not> str_in ''BIOS'' g \<and>
       (\<exists>w'. CopyFile s d \<in> set (events (move_game os a g w')))"
proof (induction games arbitrary: w n)
  case Nil
  then show ?case by simp
next
  case (Cons game games)
  show ?case
  proof (cases "str_in ''BIOS'' game")
    case True
    then have "CopyFile s d \<in> set (events (organize_games os a games w n))"
      using Cons.prems by (cases "organize_games os a games w n") auto
    then show ?thesis using Cons.IH by auto
  next
    case False
    obtain r w1 ev1 where m: "move_game os a game w = (r, w1, ev1)"
      by (cases "move_game os a game w") auto
    show ?thesis
    proof (cases "CopyFile s d \<in> set ev1")
      case True
      then have "CopyFile s d \<in> set (events (move_game os a game w))"
        using m by simp
      then show ?thesis using False by auto
    next
      case nin: False
      then have "CopyFile s d \<in> set (events (organize_games os a games w1 (n + 1)))"
        using Cons.prems False m
        by (cases r; cases "organize_games os a games w1 (n + 1)") auto
      then show ?thesis using Cons.IH by auto
    qed
  qed
qed

lemma organize_walk_CopyFile:
  "CopyFile s d \<in> set (events (organize_walk os a walk w n)) \<Longrightarrow>
     \<exists>(dirpath, dirnames, games)\<in>set walk. \<exists>g\<in>set games. \<not> str_in ''BIOS'' g \<and>
       (\<exists>w'. CopyFile s d \<in> set (events (move_game os a g w')))"
proof (induction walk arbitrary: w n)
  case Nil
  then show ?case by simp
next
  case (Cons entry walk)
  obtain dirpath dirnames games where e: "entry = (dirpath, dirnames, games)"
    by (cases entry) auto
  obtain r w1 ev1 where g: "organize_games os a games w n = (r, w1, ev1)"
    by (cases "organize_games os a games w n") auto
  show ?case
  proof (cases "CopyFile s d \<in> set ev1")
    case True
    then have "CopyFile s d \<in> set (events (organize_games os a games w n))"
      using g by simp
    then show ?thesis using organize_games_CopyFile [of s d os a games w n] e by auto
  next
    case False
    have "\<exists>k. CopyFile s d \<in> set (events (organize_walk os a walk w1 k))"
    proof (cases r)
      case (Raise x)
      then show ?thesis using Cons.prems e g False by simp
    next
      case (Return k)
      then have "CopyFile s d \<in> set (events (organize_walk os a walk w1 k))"
        using Cons.prems e g False by (cases "organize_walk os a walk w1 k") auto
      then show ?thesis ..
    qed
    then show ?thesis using Cons.IH by auto
  qed
qed

lemma organize_CopyFile:
  assumes "CopyFile s d \<in> set (events (organize os a walk w))"
  shows "\<exists>(dirpath, dirnames, games)\<in>set walk. \<exists>g\<in>set games. \<not> str_in ''BIOS'' g \<and>
       (\<exists>w'. CopyFile s d \<in> set (events (move_game os a g w')))"
proof -
  have ex: "path_exists os w (input_dir a)"
    using assms by (auto simp: organize_def abort_def split: if_splits)
  obtain r w1 ev1 where e: "ensure_dir os (output_dir a) w = (r, w1, ev1)"
    by (cases "ensure_dir os (output_dir a) w") auto
  have n: "CopyFile s d \<notin> set ev1"
    using ensure_dir_no_copy [of s d os "output_dir a" w] e by simp
  have "CopyFile s d \<in> set (events (organize_walk os a walk w1 0))"
    using assms ex e n
    by (cases r; cases "organize_walk os a walk w1 0") (auto simp: organize_def)
  then show ?thesis by (rule organize_walk_CopyFile)
qed

section \<open>The specified behaviour\<close>

subsection \<open>Region resolution\<close>

text \<open>
  C1. When the first parenthesized group of a file name has a comma and one of its
  comma-separated tags is \<^verbatim>\<open>USA\<close> (surrounding whitespace aside), wherever in the list that
  tag stands, the resolved region is the string \<^verbatim>\<open>USA\<close>.
\<close>

theorem multi_region_with_USA:
  assumes "REGION_search game = Some tags"
    and "CHR '','' \<in> set tags"
    and "tag \<in> set (split_on CHR '','' tags)"
    and "strip tag = ''USA''"
  shows "fst (resolve_region game) = ''USA''"
proof -
  have "sublist ''USA'' tag" using strip_sublist [of tag] assms(4) by simp
  moreover have "sublist tag tags" using assms(3) by (rule split_on_sublist)
  ultimately have "sublist ''USA'' tags" by (rule sublist_order.order_trans)
  then have "str_in ''USA'' tags" by (simp add: str_in_iff_sublist)
  then show ?thesis using assms(1,2) by (simp add: resolve_region_def)
qed

theorem multi_region_with_USA_witness:
  "REGION_search ''Legend of Zelda (Japan, USA).bin'' = Some ''Japan, USA''
   \<and> CHR '','' \<in> set ''Japan, USA''
   \<and> '' USA'' \<in> set (split_on CHR '','' ''Japan, USA'')
   \<and> strip '' USA'' = ''USA''
   \<and> fst (resolve_region ''Legend of Zelda (Japan, USA).bin'') = ''USA''"
proof -
  have h1: "REGION_search ''Legend of Zelda (Japan, USA).bin'' = Some ''Japan, USA''"
    by (simp add: REGION_match_here_def char_class_defs)
  have h2: "CHR '','' \<in> set ''Japan, USA''" by simp
  have h3: "'' USA'' \<in> set (split_on CHR '','' ''Japan, USA'')" by simp
  have h4: "strip '' USA'' = ''USA''" by (simp add: strip_def char_class_defs)
  show ?thesis using multi_region_with_USA [OF h1 h2 h3 h4] h1 h2 h3 h4 by blast
qed

text \<open>
  C2. When the first parenthesized group has a comma and \<^verbatim>\<open>USA\<close> does not occur in it, the
  resolved region is what stands before the first comma, with the whitespace at both ends
  removed.
\<close>

theorem multi_region_without_USA:
  assumes "REGION_search game = Some tags"
    and "CHR '','' \<in> set tags"
    and "\<not> str_in ''USA'' tags"
  shows "\<exists>first rest. tags = first @ '','' @ rest \<and> CHR '','' \<notin> set first
           \<and> fst (resolve_region game) = strip first"
proof -
  let ?first = "takeWhile (\<lambda>c. c \<noteq> CHR '','') tags"
  let ?rest = "dropWhile (\<lambda>c. c \<noteq> CHR '','') tags"
  have "?rest \<noteq> []" using assms(2) by (simp add: dropWhile_eq_Nil_conv)
  moreover have "?rest \<noteq> [] \<Longrightarrow> hd ?rest = CHR '',''"
    using hd_dropWhile [of "\<lambda>c. c \<noteq> CHR '',''" tags] by simp
  ultimately obtain rest where r: "?rest = CHR '','' # rest" by (cases ?rest) auto
  have "tags = ?first @ '','' @ rest"
    using takeWhile_dropWhile_id [of "\<lambda>c. c \<noteq> CHR '',''" tags] r by simp
  moreover have "CHR '','' \<notin> set ?first" by (auto dest: set_takeWhileD)
  moreover have "fst (resolve_region game) = strip ?first"
    using assms by (simp add: resolve_region_def hd_split_on)
  ultimately show ?thesis by blast
qed

theorem multi_region_without_USA_witness:
  "REGION_search ''Game (Japan, Europe).bin'' = Some ''Japan, Europe''
   \<and> CHR '','' \<in> set ''Japan, Europe''
   \<and> \<not> str_in ''USA'' ''Japan, Europe''
   \<and> (\<exists>first rest. ''Japan, Europe'' = first @ '','' @ rest \<and> CHR '','' \<notin> set first
        \<and> fst (resolve_region ''Game (Japan, Europe).bin'') = strip first)
   \<and> fst (resolve_region ''Game (Japan, Europe).bin'') = ''Japan''"
proof -
  have h1: "REGION_search ''Game (Japan, Europe).bin'' = Some ''Japan, Europe''"
    by (simp add: REGION_match_here_def char_class_defs)
  have h2: "CHR '','' \<in> set ''Japan, Europe''" by simp
  have h3: "\<not> str_in ''USA'' ''Japan, Europe''" by simp
  have h4: "fst (resolve_region ''Game (Japan, Europe).bin'') = ''Japan''"
    by (simp add: resolve_region_def REGION_match_here_def strip_def char_class_defs)
  show ?thesis using multi_region_without_USA [OF h1 h2 h3] h1 h2 h3 h4 by blast
qed

subsection \<open>The destination directory\<close>

lemma get_destination_dir_relative:
  assumes "\<forall>c\<in>set region. is_region_char c" and "\<not> prefix ''/'' first_char"
  shows "get_destination_dir a region first_char =
     (if output_dir a = [] \<or> suffix ''/'' (output_dir a) then output_dir a else output_dir a @ ''/'')
     @ (if region \<in> {''Europe'', ''Japan'', ''USA''} then region @ ''/'' @ first_char
        else ''Other/'' @ region)"
proof -
  have nr: "\<not> prefix ''/'' region"
    using assms(1) by (cases region) (auto simp: char_class_defs)
  have other: "join_step (join_step (output_dir a) ''Other'') region
      = (if output_dir a = [] \<or> suffix ''/'' (output_dir a) then output_dir a else output_dir a @ ''/'')
        @ ''Other/'' @ region"
    using nr by (simp add: join_step_def suffix_def)
  have priv: "region \<in> {''Europe'', ''Japan'', ''USA''} \<Longrightarrow>
      join_step (join_step (output_dir a) region) first_char
      = (if output_dir a = [] \<or> suffix ''/'' (output_dir a) then output_dir a else output_dir a @ ''/'')
        @ region @ ''/'' @ first_char"
    using assms(2) by (auto simp: join_step_def suffix_def)
  show ?thesis
    using other priv by (simp add: get_destination_dir_def os_path_join_def)
qed

text \<open>
  C3. For the region and the bucket of a file name, the destination directory is
  \<^verbatim>\<open><output_root>/<region>/<bucket>\<close> when the region is one of \<^verbatim>\<open>Europe\<close>, \<^verbatim>\<open>Japan\<close>,
  \<^verbatim>\<open>USA\<close>, and \<^verbatim>\<open><output_root>/Other/<region>\<close>, without the bucket, for any other region.
  (The separator after the output root is the one \<^verbatim>\<open>os.path.join\<close> writes: none after an
  empty root or a root that ends with a slash.)
\<close>

theorem destination_resolver:
  assumes "fst (resolve_region game) = region" and "first_char_of game = Some bucket"
  shows "get_destination_dir a region bucket =
     (if output_dir a = [] \<or> suffix ''/'' (output_dir a) then output_dir a else output_dir a @ ''/'')
     @ (if region \<in> {''Europe'', ''Japan'', ''USA''} then region @ ''/'' @ bucket
        else ''Other/'' @ region)"
proof -
  have "\<forall>c\<in>set region. is_region_char c"
    using resolve_region_chars [of game] assms(1) by simp
  moreover have "\<not> prefix ''/'' bucket"
    using first_char_of_Some [OF assms(2)] by (auto simp: char_class_defs)
  ultimately show ?thesis by (rule get_destination_dir_relative)
qed

theorem destination_resolver_witness:
  "fst (resolve_region ''007 GoldenEye (Europe).rom'') = ''Europe''
   \<and> first_char_of ''007 GoldenEye (Europe).rom'' = Some ''#''
   \<and> get_destination_dir example_args ''Europe'' ''#'' = ''out/Europe/#''
   \<and> fst (resolve_region ''Mystery Game (Hong Kong).bin'') = ''Hong Kong''
   \<and> first_char_of ''Mystery Game (Hong Kong).bin'' = Some ''M''
   \<and> get_destination_dir example_args ''Hong Kong'' ''M'' = ''out/Other/Hong Kong''"
proof -
  have h1: "fst (resolve_region ''007 GoldenEye (Europe).rom'') = ''Europe''"
    by (simp add: resolve_region_def REGION_match_here_def char_class_defs)
  have h2: "first_char_of ''007 GoldenEye (Europe).rom'' = Some ''#''"
    by (simp add: first_char_of_def ALPHA_NUMERIC_search_def NUMERIC_match_def char_class_defs)
  have h3: "fst (resolve_region ''Mystery Game (Hong Kong).bin'') = ''Hong Kong''"
    by (simp add: resolve_region_def REGION_match_here_def char_class_defs)
  have h4: "first_char_of ''Mystery Game (Hong Kong).bin'' = Some ''M''"
    by (simp add: first_char_of_def ALPHA_NUMERIC_search_def NUMERIC_match_def char_class_defs)
  show ?thesis
    using destination_resolver [OF h1 h2, of example_args]
      destination_resolver [OF h3 h4, of example_args] h1 h2 h3 h4
    by (simp add: example_args_def suffix_def)
qed

subsection \<open>A file name with an empty region\<close>

text \<open>
  C10. The file name \<^verbatim>\<open>( ,).bin\<close> has the first parenthesized group \<^verbatim>\<open> ,\<close>; its resolved
  region is the empty string and its destination directory is the output root joined with
  \<^verbatim>\<open>Other\<close> and the empty string, \<^verbatim>\<open>out/Other/\<close> under the root \<^verbatim>\<open>out\<close>.
\<close>

theorem empty_region_example:
  "REGION_search ''( ,).bin'' = Some '' ,''
   \<and> fst (resolve_region ''( ,).bin'') = []
   \<and> first_char_of ''( ,).bin'' = Some ''b''
   \<and> get_destination_dir a [] ''b'' = os_path_join (output_dir a) [''Other'', []]
   \<and> get_destination_dir example_args [] ''b'' = ''out/Other/''"
  by (simp add: resolve_region_def REGION_match_here_def strip_def first_char_of_def
      ALPHA_NUMERIC_search_def NUMERIC_match_def get_destination_dir_def os_path_join_def
      join_step_def example_args_def suffix_def char_class_defs)

subsection \<open>The bucket, and the files that have none\<close>

lemma first_char_of_first_alnum:
  assumes "\<forall>x\<in>set pre. \<not> is_alnum x" and "is_alnum c"
  shows "first_char_of (pre @ c # post) = Some (if is_digit c then ''#'' else [c])"
proof -
  have "find is_alnum (pre @ c # post) = Some c"
    using assms by (induction pre) simp_all
  then show ?thesis
    by (simp add: first_char_of_def ALPHA_NUMERIC_search_def NUMERIC_match_def)
qed

lemma first_char_of_None: "first_char_of game = None \<longleftrightarrow> (\<forall>x\<in>set game. \<not> is_alnum x)"
proof -
  have "first_char_of game = None \<longleftrightarrow> find is_alnum game = None"
    by (cases "find is_alnum game") (simp_all add: first_char_of_def ALPHA_NUMERIC_search_def)
  then show ?thesis by (auto simp: find_None_iff)
qed

lemma no_alnum_no_BIOS:
  assumes "\<forall>x\<in>set game. \<not> is_alnum x"
  shows "\<not> str_in ''BIOS'' game"
proof
  assume "str_in ''BIOS'' game"
  then have "sublist ''BIOS'' game" by (simp add: str_in_iff_sublist)
  then have "set ''BIOS'' \<subseteq> set game" by (rule set_mono_sublist)
  then have "CHR ''B'' \<in> set game" by simp
  moreover have "is_alnum CHR ''B''" by (simp add: char_class_defs)
  ultimately show False using assms by blast
qed

text \<open>
  C4. The bucket of a file name is its first character of \<^verbatim>\<open>[A-Za-z0-9]\<close>, replaced by
  \<^verbatim>\<open>#\<close> when it is a digit and kept as it is otherwise. A file name with no such character
  is skipped: \<^verbatim>\<open>move_game\<close> returns with the file system as it was, having logged and
  done nothing else (no directory made, no copy), and the loop goes on with the next file.
\<close>

theorem bucket_or_skip:
  "((\<forall>x\<in>set pre. \<not> is_alnum x) \<and> is_alnum c \<longrightarrow>
      first_char_of (pre @ c # post) = Some (if is_digit c then ''#'' else [c]))
   \<and> ((\<forall>x\<in>set game. \<not> is_alnum x) \<longrightarrow>
        first_char_of game = None
        \<and> move_game os a game w =
            (Return (), w,
             snd (resolve_region game)
             @ [Log WARNING (''Unable to determine the first alpha numeric character in ''
                             @ CHR 0x27 # game @ CHR 0x27 # ''; skipping'')])
        \<and> organize_games os a (game # games) w n =
            (case organize_games os a games w (n + 1) of
               (r, w', evs) \<Rightarrow>
                 (r, w',
                  snd (resolve_region game)
                  @ [Log WARNING (''Unable to determine the first alpha numeric character in ''
                                  @ CHR 0x27 # game @ CHR 0x27 # ''; skipping'')]
                  @ evs)))"
proof (intro conjI impI)
  assume "(\<forall>x\<in>set pre. \<not> is_alnum x) \<and> is_alnum c"
  then show "first_char_of (pre @ c # post) = Some (if is_digit c then ''#'' else [c])"
    using first_char_of_first_alnum by blast
next
  assume n: "\<forall>x\<in>set game. \<not> is_alnum x"
  then show none: "first_char_of game = None" by (simp add: first_char_of_None)
  show m: "move_game os a game w =
      (Return (), w,
       snd (resolve_region game)
       @ [Log WARNING (''Unable to determine the first alpha numeric character in ''
                       @ CHR 0x27 # game @ CHR 0x27 # ''; skipping'')])"
    using none by (cases "resolve_region game") (simp add: move_game_def)
  have "\<not> str_in ''BIOS'' game" using n by (rule no_alnum_no_BIOS)
  then show "organize_games os a (game # games) w n =
      (case organize_games os a games w (n + 1) of
         (r, w', evs) \<Rightarrow>
           (r, w',
            snd (resolve_region game)
            @ [Log WARNING (''Unable to determine the first alpha numeric character in ''
                            @ CHR 0x27 # game @ CHR 0x27 # ''; skipping'')]
            @ evs))"
    using m by (cases "organize_games os a games w (n + 1)") simp
qed

theorem bucket_or_skip_witness:
  "\<not> is_alnum CHR ''('' \<and> is_alnum CHR ''0''
   \<and> first_char_of (''('' @ CHR ''0'' # ''07) GoldenEye.rom'') = Some ''#''
   \<and> \<not> is_alnum CHR ''.'' \<and> is_alnum CHR ''h''
   \<and> first_char_of (''.'' @ CHR ''h'' # ''ack (USA).bin'') = Some ''h''
   \<and> \<not> is_alnum CHR ''-''
   \<and> first_char_of ''---'' = None
   \<and> move_game list_os example_args ''---'' [''in'', ''in/---''] =
       (Return (), [''in'', ''in/---''],
        snd (resolve_region ''---'')
        @ [Log WARNING (''Unable to determine the first alpha numeric character in ''
                        @ CHR 0x27 # ''---'' @ CHR 0x27 # ''; skipping'')])
   \<and> organize_games list_os example_args [''---'', ''Tetris.bin''] [''in'', ''in/---''] 0 =
       (case organize_games list_os example_args [''Tetris.bin''] [''in'', ''in/---''] (0 + 1) of
          (r, w', evs) \<Rightarrow>
            (r, w',
             snd (resolve_region ''---'')
             @ [Log WARNING (''Unable to determine the first alpha numeric character in ''
                             @ CHR 0x27 # ''---'' @ CHR 0x27 # ''; skipping'')]
             @ evs))"
proof -
  have n1: "\<not> is_alnum CHR ''(''" and n2: "\<not> is_alnum CHR ''.''" and n3: "\<not> is_alnum CHR ''-''"
    and d0: "is_digit CHR ''0''" and a0: "is_alnum CHR ''0''"
    and dh: "\<not> is_digit CHR ''h''" and ah: "is_alnum CHR ''h''"
    by (simp_all add: char_class_defs)
  have h1: "(\<forall>x\<in>set ''(''. \<not> is_alnum x) \<and> is_alnum CHR ''0''"
    using n1 a0 by simp
  have h2: "(\<forall>x\<in>set ''.'' . \<not> is_alnum x) \<and> is_alnum CHR ''h''"
    using n2 ah by simp
  have h3: "\<forall>x\<in>set ''---''. \<not> is_alnum x"
    using n3 by simp
  note t1 = bucket_or_skip [of "''(''" "CHR ''0''" "''07) GoldenEye.rom''", THEN conjunct1, THEN mp, OF h1]
  note t2 = bucket_or_skip [of "''.''" "CHR ''h''" "''ack (USA).bin''", THEN conjunct1, THEN mp, OF h2]
  note t3 = bucket_or_skip [of _ _ _ "''---''" list_os example_args "[''in'', ''in/---'']"
      "[''Tetris.bin'']" 0, THEN conjunct2, THEN mp, OF h3]
  have c1: "first_char_of (''('' @ CHR ''0'' # ''07) GoldenEye.rom'') = Some ''#''"
    using t1 d0 by simp
  have c2: "first_char_of (''.'' @ CHR ''h'' # ''ack (USA).bin'') = Some ''h''"
    using t2 dh by simp
  show ?thesis
    using n1 n2 n3 a0 ah c1 c2 t3 by simp
qed

text \<open>
  C5, as amended. A file name with no parenthesized group of the allowed characters has
  the region \<^verbatim>\<open>USA\<close> and a warning is logged; if the name has an alphanumeric character,
  the file is routed, with that region: its destination directory is made or it is copied
  there.
\<close>

theorem missing_region_defaults_to_USA:
  assumes "REGION_search game = None"
  shows "resolve_region game =
           (''USA'',
            [Log WARNING (''Unable to find region in '' @ CHR 0x27 # game @ CHR 0x27
                          # ''; defaulting to USA'')])
         \<and> (\<forall>b. first_char_of game = Some b \<longrightarrow>
               move_game os a game w =
                 (case place_game os a ''USA'' b game w of
                    (r, w', evs) \<Rightarrow>
                      (r, w',
                       Log WARNING (''Unable to find region in '' @ CHR 0x27 # game @ CHR 0x27
                                    # ''; defaulting to USA'') # evs))
               \<and> (MakeDirs (get_destination_dir a ''USA'' b) \<in> set (events (move_game os a game w))
                  \<or> CopyFile (os_path_join (input_dir a) [game])
                              (os_path_join (get_destination_dir a ''USA'' b) [game])
                       \<in> set (events (move_game os a game w))))"
proof (intro conjI allI impI)
  show r: "resolve_region game =
           (''USA'',
            [Log WARNING (''Unable to find region in '' @ CHR 0x27 # game @ CHR 0x27
                          # ''; defaulting to USA'')])"
    using assms by (simp add: resolve_region_def)
  fix b assume b: "first_char_of game = Some b"
  show m: "move_game os a game w =
                 (case place_game os a ''USA'' b game w of
                    (r, w', evs) \<Rightarrow>
                      (r, w',
                       Log WARNING (''Unable to find region in '' @ CHR 0x27 # game @ CHR 0x27
                                    # ''; defaulting to USA'') # evs))"
    using r b by (simp add: move_game_def)
  obtain r' w' evs where p: "place_game os a ''USA'' b game w = (r', w', evs)"
    by (cases "place_game os a ''USA'' b game w") auto
  have "MakeDirs (get_destination_dir a ''USA'' b) \<in> set evs
        \<or> CopyFile (os_path_join (input_dir a) [game])
                    (os_path_join (get_destination_dir a ''USA'' b) [game]) \<in> set evs"
    using place_game_routes [of a "''USA''" b os game w] p by simp
  then show "MakeDirs (get_destination_dir a ''USA'' b) \<in> set (events (move_game os a game w))
                  \<or> CopyFile (os_path_join (input_dir a) [game])
                              (os_path_join (get_destination_dir a ''USA'' b) [game])
                       \<in> set (events (move_game os a game w))"
    using m p by auto
qed

theorem missing_region_defaults_to_USA_witness:
  "REGION_search ''Tetris.bin'' = None
   \<and> first_char_of ''Tetris.bin'' = Some ''T''
   \<and> fst (resolve_region ''Tetris.bin'') = ''USA''
   \<and> (MakeDirs (get_destination_dir example_args ''USA'' ''T'')
         \<in> set (events (move_game list_os example_args ''Tetris.bin'' [''in'', ''in/Tetris.bin'']))
       \<or> CopyFile (os_path_join (input_dir example_args) [''Tetris.bin''])
                   (os_path_join (get_destination_dir example_args ''USA'' ''T'') [''Tetris.bin''])
         \<in> set (events (move_game list_os example_args ''Tetris.bin'' [''in'', ''in/Tetris.bin''])))"
proof -
  have h1: "REGION_search ''Tetris.bin'' = None"
    by (simp add: REGION_match_here_def)
  have h2: "first_char_of ''Tetris.bin'' = Some ''T''"
    by (simp add: first_char_of_def ALPHA_NUMERIC_search_def NUMERIC_match_def char_class_defs)
  note t = missing_region_defaults_to_USA [OF h1, of list_os example_args "[''in'', ''in/Tetris.bin'']"]
  have c1: "fst (resolve_region ''Tetris.bin'') = ''USA''"
    using t [THEN conjunct1] by simp
  note c2 = t [THEN conjunct2, THEN spec, THEN mp, OF h2, THEN conjunct2]
  show ?thesis using h1 h2 c1 c2 by (intro conjI) assumption+
qed

text \<open>
  The file name \<^verbatim>\<open>---\<close> has no parenthesized group, and it is skipped: the two warnings
  are all that happens.
\<close>

theorem missing_region_skipped_counterexample:
  "REGION_search ''---'' = None
   \<and> move_game list_os example_args ''---'' [''in'', ''in/---''] =
       (Return (), [''in'', ''in/---''],
        [Log WARNING ''Unable to find region in '---'; defaulting to USA'',
         Log WARNING ''Unable to determine the first alpha numeric character in '---'; skipping''])"
  by (simp add: REGION_match_here_def move_game_def resolve_region_def first_char_of_def
      ALPHA_NUMERIC_search_def char_class_defs)

subsection \<open>The source of the copy\<close>

lemma suffix_slash: "suffix ''/'' p \<longleftrightarrow> p \<noteq> [] \<and> last p = CHR ''/''"
  by (cases p rule: rev_cases) (auto simp: suffix_def)

lemma is_name_last: "is_name n \<Longrightarrow> n \<noteq> [] \<and> last n \<noteq> CHR ''/''"
  unfolding is_name_def by (metis last_in_set)

lemma one_name_under:
  assumes "is_name n"
  shows "join_step p n = (if p = [] \<or> suffix ''/'' p then p else p @ ''/'') @ n"
proof -
  have "\<not> prefix ''/'' n" using assms by (cases n) (auto simp: is_name_def)
  then show ?thesis by (rule join_step_relative)
qed

lemma names_under:
  assumes "list_all is_name ns" and "t \<noteq> []" and "last t \<noteq> CHR ''/''"
  shows "\<exists>t'. t' \<noteq> [] \<and> last t' \<noteq> CHR ''/'' \<and> foldl join_step (q @ t) ns = q @ t'"
  using assms
proof (induction ns arbitrary: t)
  case Nil
  then show ?case by auto
next
  case (Cons n ns)
  have n: "is_name n" and ns: "list_all is_name ns" using Cons.prems(1) by simp_all
  have "\<not> suffix ''/'' (q @ t)"
    using Cons.prems(2,3) by (simp add: suffix_slash)
  then have step: "join_step (q @ t) n = q @ (t @ ''/'' @ n)"
    using one_name_under [OF n, of "q @ t"] Cons.prems(2) by simp
  have ne: "t @ ''/'' @ n \<noteq> []" by simp
  have la: "last (t @ ''/'' @ n) \<noteq> CHR ''/''"
    using is_name_last [OF n] by simp
  have "\<exists>t'. t' \<noteq> [] \<and> last t' \<noteq> CHR ''/''
      \<and> foldl join_step (q @ (t @ ''/'' @ n)) ns = q @ t'"
    using ns ne la by (rule Cons.IH)
  then show ?case using step by simp
qed

lemma subdirectory_path_differs:
  assumes "list_all is_name (n # ns)" and "is_name game"
  shows "os_path_join (input_dir a) [game]
           \<noteq> os_path_join (os_path_join (input_dir a) (n # ns)) [game]"
proof -
  let ?root = "if input_dir a = [] \<or> suffix ''/'' (input_dir a) then input_dir a else input_dir a @ ''/''"
  have n: "is_name n" and ns: "list_all is_name ns" using assms(1) by simp_all
  have "n \<noteq> []" and "last n \<noteq> CHR ''/''" using is_name_last [OF n] by simp_all
  then have "\<exists>t. t \<noteq> [] \<and> last t \<noteq> CHR ''/'' \<and> foldl join_step (?root @ n) ns = ?root @ t"
    by (rule names_under [OF ns])
  then obtain t where t: "t \<noteq> []" "last t \<noteq> CHR ''/''"
    and f: "foldl join_step (?root @ n) ns = ?root @ t"
    by (elim exE conjE)
  have sub: "os_path_join (input_dir a) (n # ns) = ?root @ t"
    using f one_name_under [OF n, of "input_dir a"] by (simp add: os_path_join_def)
  have "\<not> suffix ''/'' (?root @ t)" using t by (simp add: suffix_slash)
  then have "os_path_join (?root @ t) [game] = ?root @ t @ ''/'' @ game"
    using one_name_under [OF assms(2), of "?root @ t"] t by (simp add: os_path_join_def)
  moreover have "os_path_join (input_dir a) [game] = ?root @ game"
    using one_name_under [OF assms(2), of "input_dir a"] by (simp add: os_path_join_def)
  moreover have "t @ ''/'' @ game \<noteq> game"
  proof
    assume "t @ ''/'' @ game = game"
    then have "length (t @ ''/'' @ game) = length game" by simp
    then show False by simp
  qed
  ultimately show ?thesis using sub by simp
qed

lemma organize_walk_names_only:
  "organize_walk os a (map (\<lambda>(dirpath, dirnames, games). (root, [], games)) walk) w n
     = organize_walk os a walk w n"
  by (induction walk arbitrary: w n) (auto split: prod.splits result.splits)

text \<open>
  C9. The walk is recursive, but the run reads the file names only: it is the run of the
  same names listed under the input directory itself. The source handed to
  \<^verbatim>\<open>shutil.copyfile\<close> for a file is the input directory joined with the bare name, and for
  a file of a proper subdirectory (the input directory joined with one or more directory
  names) that path is not the path of the file.
\<close>

theorem copy_source_drops_subdirectory:
  "organize os a walk w =
     organize os a (map (\<lambda>(dirpath, dirnames, games). (input_dir a, [], games)) walk) w
   \<and> (CopyFile s d \<in> set (events (move_game os a game w')) \<longrightarrow>
        s = os_path_join (input_dir a) [game])
   \<and> (list_all is_name (n # ns) \<and> is_name game \<longrightarrow>
        os_path_join (input_dir a) [game]
          \<noteq> os_path_join (os_path_join (input_dir a) (n # ns)) [game])"
proof (intro conjI impI)
  show "organize os a walk w =
     organize os a (map (\<lambda>(dirpath, dirnames, games). (input_dir a, [], games)) walk) w"
    unfolding organize_def organize_walk_names_only by (rule refl)
next
  assume "CopyFile s d \<in> set (events (move_game os a game w'))"
  then have "\<exists>b. first_char_of game = Some b \<and> s = os_path_join (input_dir a) [game] \<and>
      d = os_path_join (get_destination_dir a (fst (resolve_region game)) b) [game]"
    by (rule move_game_CopyFile)
  then show "s = os_path_join (input_dir a) [game]" by (elim exE conjE)
next
  assume "list_all is_name (n # ns) \<and> is_name game"
  then have "list_all is_name (n # ns)" and "is_name game" by simp_all
  then show "os_path_join (input_dir a) [game]
          \<noteq> os_path_join (os_path_join (input_dir a) (n # ns)) [game]"
    by (rule subdirectory_path_differs)
qed

lemmas run_defs =
  move_game_def place_game_def ensure_dir_def create_dir_def abort_def
  resolve_region_def REGION_match_here_def first_char_of_def ALPHA_NUMERIC_search_def
  NUMERIC_match_def get_destination_dir_def os_path_join_def join_step_def strip_def
  list_os_def example_args_def suffix_def Let_def char_class_defs

theorem copy_source_drops_subdirectory_witness:
  "CopyFile ''in/Mystery Game (Hong Kong).bin'' ''out/Other/Hong Kong/Mystery Game (Hong Kong).bin''
     \<in> set (events (move_game list_os example_args ''Mystery Game (Hong Kong).bin''
                      [''in'', ''out'', ''in/sub'', ''in/sub/Mystery Game (Hong Kong).bin'']))
   \<and> ''in/Mystery Game (Hong Kong).bin''
       = os_path_join (input_dir example_args) [''Mystery Game (Hong Kong).bin'']
   \<and> list_all is_name [''sub''] \<and> is_name ''Mystery Game (Hong Kong).bin''
   \<and> os_path_join (input_dir example_args) [''sub''] = ''in/sub''
   \<and> os_path_join (input_dir example_args) [''Mystery Game (Hong Kong).bin'']
       \<noteq> os_path_join (os_path_join (input_dir example_args) [''sub''])
            [''Mystery Game (Hong Kong).bin'']"
proof -
  have h1: "CopyFile ''in/Mystery Game (Hong Kong).bin''
        ''out/Other/Hong Kong/Mystery Game (Hong Kong).bin''
     \<in> set (events (move_game list_os example_args ''Mystery Game (Hong Kong).bin''
                      [''in'', ''out'', ''in/sub'', ''in/sub/Mystery Game (Hong Kong).bin'']))"
    by (simp add: run_defs)
  have h2: "list_all is_name [''sub''] \<and> is_name ''Mystery Game (Hong Kong).bin''"
    by (simp add: is_name_def)
  have h3: "os_path_join (input_dir example_args) [''sub''] = ''in/sub''"
    by (simp add: os_path_join_def join_step_def example_args_def suffix_def)
  note t = copy_source_drops_subdirectory [of list_os example_args "[]" "[]"
      "''in/Mystery Game (Hong Kong).bin''" "''out/Other/Hong Kong/Mystery Game (Hong Kong).bin''"
      "''Mystery Game (Hong Kong).bin''"
      "[''in'', ''out'', ''in/sub'', ''in/sub/Mystery Game (Hong Kong).bin'']" "''sub''" "[]"]
  note c1 = t [THEN conjunct2, THEN conjunct1, THEN mp, OF h1]
  note c2 = t [THEN conjunct2, THEN conjunct2, THEN mp, OF h2]
  show ?thesis using h1 h2 h3 c1 c2 by simp
qed

subsection \<open>BIOS files\<close>

text \<open>
  C6. A file name that contains \<^verbatim>\<open>BIOS\<close> costs the loop one line in the log and nothing
  else: \<^verbatim>\<open>move_game\<close> is not called on it, so neither its region nor its bucket nor a
  destination is computed, the file system and the count stay as they are. Every copy of
  a whole run is the copy of a listed file whose name does not contain \<^verbatim>\<open>BIOS\<close>.
\<close>

theorem bios_never_copied:
  "(game = pre @ ''BIOS'' @ post \<longrightarrow>
      organize_games os a (game # games) w n =
        (case organize_games os a games w n of
           (r, w', evs) \<Rightarrow> (r, w', Log INFO (''Skipping BIOS file: '' @ game) # evs)))
   \<and> (CopyFile s d \<in> set (events (organize os a walk w)) \<longrightarrow>
        (\<exists>(dirpath, dirnames, games)\<in>set walk. \<exists>g\<in>set games.
           \<not> sublist ''BIOS'' g
           \<and> s = os_path_join (input_dir a) [g]
           \<and> (\<exists>b. first_char_of g = Some b
                \<and> d = os_path_join (get_destination_dir a (fst (resolve_region g)) b) [g])))"
proof (intro conjI impI)
  assume "game = pre @ ''BIOS'' @ post"
  then have "sublist ''BIOS'' game" by (simp only: sublist_appendI)
  then have "str_in ''BIOS'' game" by (simp add: str_in_iff_sublist)
  then show "organize_games os a (game # games) w n =
        (case organize_games os a games w n of
           (r, w', evs) \<Rightarrow> (r, w', Log INFO (''Skipping BIOS file: '' @ game) # evs))"
    by simp
next
  assume "CopyFile s d \<in> set (events (organize os a walk w))"
  then have "\<exists>(dirpath, dirnames, games)\<in>set walk. \<exists>g\<in>set games. \<not> str_in ''BIOS'' g \<and>
       (\<exists>w'. CopyFile s d \<in> set (events (move_game os a g w')))"
    by (rule organize_CopyFile)
  then obtain dirpath dirnames games g w' where e: "(dirpath, dirnames, games) \<in> set walk"
    and g: "g \<in> set games" and nb: "\<not> str_in ''BIOS'' g"
    and c: "CopyFile s d \<in> set (events (move_game os a g w'))"
    by auto
  have "\<exists>b. first_char_of g = Some b \<and> s = os_path_join (input_dir a) [g] \<and>
           d = os_path_join (get_destination_dir a (fst (resolve_region g)) b) [g]"
    using c by (rule move_game_CopyFile)
  then have "\<not> sublist ''BIOS'' g
           \<and> s = os_path_join (input_dir a) [g]
           \<and> (\<exists>b. first_char_of g = Some b
                \<and> d = os_path_join (get_destination_dir a (fst (resolve_region g)) b) [g])"
    using nb by (auto simp: str_in_iff_sublist)
  then have "\<exists>g\<in>set games. \<not> sublist ''BIOS'' g
           \<and> s = os_path_join (input_dir a) [g]
           \<and> (\<exists>b. first_char_of g = Some b
                \<and> d = os_path_join (get_destination_dir a (fst (resolve_region g)) b) [g])"
    using g by - (rule bexI [where x = g], assumption+)
  then show "\<exists>(dirpath, dirnames, games)\<in>set walk. \<exists>g\<in>set games.
           \<not> sublist ''BIOS'' g
           \<and> s = os_path_join (input_dir a) [g]
           \<and> (\<exists>b. first_char_of g = Some b
                \<and> d = os_path_join (get_destination_dir a (fst (resolve_region g)) b) [g])"
    using e by - (rule bexI [where x = "(dirpath, dirnames, games)"], simp_all)
qed

theorem bios_never_copied_witness:
  "''BIOS_SystemFile.bin'' = [] @ ''BIOS'' @ ''_SystemFile.bin''
   \<and> organize_games list_os example_args [''BIOS_SystemFile.bin''] [''in'', ''out''] 0 =
       (Return 0, [''in'', ''out''], [Log INFO ''Skipping BIOS file: BIOS_SystemFile.bin''])
   \<and> CopyFile ''in/Tetris (USA).bin'' ''out/USA/T/Tetris (USA).bin''
       \<in> set (events (organize list_os example_args
                        [(''in'', [], [''BIOS_SystemFile.bin'', ''Tetris (USA).bin''])]
                        [''in'', ''out'', ''in/BIOS_SystemFile.bin'', ''in/Tetris (USA).bin'']))
   \<and> (\<exists>(dirpath, dirnames, games)
          \<in>set [(''in'', [] :: string list, [''BIOS_SystemFile.bin'', ''Tetris (USA).bin''])].
        \<exists>g\<in>set games.
           \<not> sublist ''BIOS'' g
           \<and> ''in/Tetris (USA).bin'' = os_path_join (input_dir example_args) [g]
           \<and> (\<exists>b. first_char_of g = Some b
                \<and> ''out/USA/T/Tetris (USA).bin''
                    = os_path_join (get_destination_dir example_args (fst (resolve_region g)) b) [g]))"
proof -
  have h1: "''BIOS_SystemFile.bin'' = [] @ ''BIOS'' @ ''_SystemFile.bin''" by simp
  have h2: "CopyFile ''in/Tetris (USA).bin'' ''out/USA/T/Tetris (USA).bin''
       \<in> set (events (organize list_os example_args
                        [(''in'', [], [''BIOS_SystemFile.bin'', ''Tetris (USA).bin''])]
                        [''in'', ''out'', ''in/BIOS_SystemFile.bin'', ''in/Tetris (USA).bin'']))"
    by (simp add: organize_def run_defs)
  note c1 = bios_never_copied [of "''BIOS_SystemFile.bin''" "[]" "''_SystemFile.bin''"
      list_os example_args "[]" "[''in'', ''out'']" 0, THEN conjunct1, THEN mp, OF h1]
  note c2 = bios_never_copied [THEN conjunct2, THEN mp, OF h2]
  have c1': "organize_games list_os example_args [''BIOS_SystemFile.bin''] [''in'', ''out''] 0 =
       (Return 0, [''in'', ''out''], [Log INFO ''Skipping BIOS file: BIOS_SystemFile.bin''])"
    using c1 by simp
  show ?thesis by (intro conjI) (rule h1 h2 c1' c2)+
qed

subsection \<open>The destination depends on the name and the output root only\<close>

lemma create_dir_MakeDirs: "MakeDirs p \<in> set (events (create_dir os dir w)) \<Longrightarrow> p = dir"
  by (cases "makedirs os w dir") (auto simp: create_dir_def abort_def split: option.splits)

lemma ensure_dir_MakeDirs: "MakeDirs p \<in> set (events (ensure_dir os dir w)) \<Longrightarrow> p = dir"
  using create_dir_MakeDirs [of p os dir w]
  by (cases "create_dir os dir w") (auto simp: ensure_dir_def split: if_splits)

lemma place_game_MakeDirs:
  assumes "MakeDirs p \<in> set (events (place_game os a region b game w))"
  shows "p = get_destination_dir a region b"
proof -
  have "MakeDirs p \<in> set (events (ensure_dir os (get_destination_dir a region b) w))"
    using place_game_events [of os a region b game w] assms by auto
  then show ?thesis by (rule ensure_dir_MakeDirs)
qed

lemma move_game_MakeDirs:
  assumes "MakeDirs p \<in> set (events (move_game os a game w))"
  shows "\<exists>b. first_char_of game = Some b \<and>
           p = get_destination_dir a (fst (resolve_region game)) b"
proof (cases "first_char_of game")
  case None
  then show ?thesis
    using assms resolve_region_events [of game]
    by (cases "resolve_region game") (auto simp: move_game_def split: option.splits)
next
  case (Some b)
  obtain r w' evs where p: "place_game os a (fst (resolve_region game)) b game w = (r, w', evs)"
    by (cases "place_game os a (fst (resolve_region game)) b game w") auto
  have "events (move_game os a game w) = snd (resolve_region game) @ evs"
    using Some p by (cases "resolve_region game") (simp add: move_game_def)
  then have "MakeDirs p \<in> set evs"
    using assms by (auto simp: resolve_region_events split: option.splits)
  then have "MakeDirs p \<in> set (events (place_game os a (fst (resolve_region game)) b game w))"
    using p by simp
  then have "p = get_destination_dir a (fst (resolve_region game)) b"
    by (rule place_game_MakeDirs)
  then show ?thesis using Some by simp
qed

lemma get_destination_dir_root:
  "output_dir a1 = output_dir a2 \<Longrightarrow>
     get_destination_dir a1 region b = get_destination_dir a2 region b"
  by (simp add: get_destination_dir_def)

text \<open>
  C7. Two calls of \<^verbatim>\<open>move_game\<close> on the same file name, with the same output root, on any
  two file systems in any two states (and with any two input directories): the
  destinations of their copies are the same path, and so are the directories they make,
  and the copy goes into the directory made. With the two calls the same, a file has one
  destination.
\<close>

theorem destination_is_function_of_name:
  assumes "output_dir a1 = output_dir a2"
  shows "(CopyFile s1 d1 \<in> set (events (move_game os1 a1 game w1))
          \<and> CopyFile s2 d2 \<in> set (events (move_game os2 a2 game w2)) \<longrightarrow> d1 = d2)
       \<and> (MakeDirs p1 \<in> set (events (move_game os1 a1 game w1))
          \<and> MakeDirs p2 \<in> set (events (move_game os2 a2 game w2)) \<longrightarrow> p1 = p2)
       \<and> (MakeDirs p1 \<in> set (events (move_game os1 a1 game w1))
          \<and> CopyFile s2 d2 \<in> set (events (move_game os2 a2 game w2)) \<longrightarrow>
            d2 = os_path_join p1 [game])"
proof (intro conjI impI)
  assume "CopyFile s1 d1 \<in> set (events (move_game os1 a1 game w1))
          \<and> CopyFile s2 d2 \<in> set (events (move_game os2 a2 game w2))"
  then have c1: "CopyFile s1 d1 \<in> set (events (move_game os1 a1 game w1))"
    and c2: "CopyFile s2 d2 \<in> set (events (move_game os2 a2 game w2))" by simp_all
  show "d1 = d2"
    using move_game_CopyFile [OF c1] move_game_CopyFile [OF c2]
      get_destination_dir_root [OF assms] by auto
next
  assume "MakeDirs p1 \<in> set (events (move_game os1 a1 game w1))
          \<and> MakeDirs p2 \<in> set (events (move_game os2 a2 game w2))"
  then have c1: "MakeDirs p1 \<in> set (events (move_game os1 a1 game w1))"
    and c2: "MakeDirs p2 \<in> set (events (move_game os2 a2 game w2))" by simp_all
  show "p1 = p2"
    using move_game_MakeDirs [OF c1] move_game_MakeDirs [OF c2]
      get_destination_dir_root [OF assms] by auto
next
  assume "MakeDirs p1 \<in> set (events (move_game os1 a1 game w1))
          \<and> CopyFile s2 d2 \<in> set (events (move_game os2 a2 game w2))"
  then have c1: "MakeDirs p1 \<in> set (events (move_game os1 a1 game w1))"
    and c2: "CopyFile s2 d2 \<in> set (events (move_game os2 a2 game w2))" by simp_all
  show "d2 = os_path_join p1 [game]"
    using move_game_MakeDirs [OF c1] move_game_CopyFile [OF c2]
      get_destination_dir_root [OF assms] by auto
qed

theorem destination_is_function_of_name_witness:
  "output_dir example_args = output_dir (example_args\<lparr>input_dir := ''roms''\<rparr>)
   \<and> CopyFile ''in/Tetris (USA).bin'' ''out/USA/T/Tetris (USA).bin''
       \<in> set (events (move_game list_os example_args ''Tetris (USA).bin''
                        [''in'', ''out'', ''in/Tetris (USA).bin'']))
   \<and> MakeDirs ''out/USA/T''
       \<in> set (events (move_game list_os example_args ''Tetris (USA).bin''
                        [''in'', ''out'', ''in/Tetris (USA).bin'']))
   \<and> CopyFile ''roms/Tetris (USA).bin'' ''out/USA/T/Tetris (USA).bin''
       \<in> set (events (move_game list_os (example_args\<lparr>input_dir := ''roms''\<rparr>)
                        ''Tetris (USA).bin'' [''out/USA/T'']))
   \<and> MakeDirs ''out/USA/T''
       \<in> set (events (move_game list_os (example_args\<lparr>input_dir := ''roms''\<rparr>)
                        ''Tetris (USA).bin'' []))
   \<and> ''out/USA/T/Tetris (USA).bin'' = os_path_join ''out/USA/T'' [''Tetris (USA).bin'']"
proof -
  have h0: "output_dir example_args = output_dir (example_args\<lparr>input_dir := ''roms''\<rparr>)"
    by simp
  have c1: "CopyFile ''in/Tetris (USA).bin'' ''out/USA/T/Tetris (USA).bin''
       \<in> set (events (move_game list_os example_args ''Tetris (USA).bin''
                        [''in'', ''out'', ''in/Tetris (USA).bin'']))"
    by (simp add: run_defs)
  have m1: "MakeDirs ''out/USA/T''
       \<in> set (events (move_game list_os example_args ''Tetris (USA).bin''
                        [''in'', ''out'', ''in/Tetris (USA).bin'']))"
    by (simp add: run_defs)
  have c2: "CopyFile ''roms/Tetris (USA).bin'' ''out/USA/T/Tetris (USA).bin''
       \<in> set (events (move_game list_os (example_args\<lparr>input_dir := ''roms''\<rparr>)
                        ''Tetris (USA).bin'' [''out/USA/T'']))"
    by (simp add: run_defs)
  have m2: "MakeDirs ''out/USA/T''
       \<in> set (events (move_game list_os (example_args\<lparr>input_dir := ''roms''\<rparr>)
                        ''Tetris (USA).bin'' []))"
    by (simp add: run_defs)
  note t = destination_is_function_of_name [OF h0]
  have "''out/USA/T/Tetris (USA).bin'' = ''out/USA/T/Tetris (USA).bin''"
    using t [THEN conjunct1, THEN mp, OF conjI [OF c1 c2]] .
  have "''out/USA/T'' = ''out/USA/T''"
    using t [THEN conjunct2, THEN conjunct1, THEN mp, OF conjI [OF m1 m2]] .
  have j: "''out/USA/T/Tetris (USA).bin'' = os_path_join ''out/USA/T'' [''Tetris (USA).bin'']"
    using t [THEN conjunct2, THEN conjunct2, THEN mp, OF conjI [OF m1 c2]] .
  show ?thesis by (intro conjI) (rule h0 c1 m1 c2 m2 j)+
qed

subsection \<open>The count of processed games\<close>

text \<open>
  C8. \<^verbatim>\<open>organize\<close> adds one to \<^verbatim>\<open>game_count\<close> after every return of \<^verbatim>\<open>move_game\<close>, also
  the early return of a file with no alphanumeric character. On an input directory holding
  the one file \<^verbatim>\<open>---\<close> the run copies nothing and returns the count 1, which the main
  block logs as \<^verbatim>\<open>Processed 1 games\<close>. (The loop leaves a \<^verbatim>\<open>BIOS\<close> file, its other skip,
  out of the count.)
\<close>

theorem skipped_file_is_counted:
  "first_char_of ''---'' = None
   \<and> organize list_os example_args [(''in'', [], [''---''])] [''in'', ''out'', ''in/---''] =
       (Return 1, [''in'', ''out'', ''in/---''],
        [Log WARNING ''Unable to find region in '---'; defaulting to USA'',
         Log WARNING ''Unable to determine the first alpha numeric character in '---'; skipping''])
   \<and> main list_os example_args [(''in'', [], [''---''])] [''in'', ''out'', ''in/---''] =
       (Return (), [''in'', ''out'', ''in/---''],
        [Log INFO ''Start'',
         Log INFO ''*** Script Arguments Begin ***'',
         Log INFO ''debug: False'',
         Log INFO ''input_dir: in'',
         Log INFO ''output_dir: out'',
         Log INFO ''*** Script Arguments End ***'',
         Log WARNING ''Unable to find region in '---'; defaulting to USA'',
         Log WARNING ''Unable to determine the first alpha numeric character in '---'; skipping'',
         Log INFO ''Processed 1 games'',
         Log INFO ''Finish''])"
proof -
  have o: "organize list_os example_args [(''in'', [], [''---''])] [''in'', ''out'', ''in/---''] =
       (Return 1, [''in'', ''out'', ''in/---''],
        [Log WARNING ''Unable to find region in '---'; defaulting to USA'',
         Log WARNING ''Unable to determine the first alpha numeric character in '---'; skipping''])"
    by (simp add: organize_def run_defs)
  have "str_of_nat 1 = ''1''"
    by code_simp
  then have n: "str_of_nat (Suc 0) = ''1''"
    by simp
  have f: "first_char_of ''---'' = None"
    by (simp add: first_char_of_def ALPHA_NUMERIC_search_def char_class_defs)
  have m: "main list_os example_args [(''in'', [], [''---''])] [''in'', ''out'', ''in/---''] =
       (Return (), [''in'', ''out'', ''in/---''],
        [Log INFO ''Start'',
         Log INFO ''*** Script Arguments Begin ***'',
         Log INFO ''debug: False'',
         Log INFO ''input_dir: in'',
         Log INFO ''output_dir: out'',
         Log INFO ''*** Script Arguments End ***'',
         Log WARNING ''Unable to find region in '---'; defaulting to USA'',
         Log WARNING ''Unable to determine the first alpha numeric character in '---'; skipping'',
         Log INFO ''Processed 1 games'',
         Log INFO ''Finish''])"
    unfolding main_def o
    by (simp add: n log_args_def str_of_bool_def example_args_def)
  show ?thesis by (intro conjI) (rule f o m)+
qed

end
